theory Spec2Isabelle
  imports Complex_Main "HOL-Library.AList"
begin

section \<open>Differentiable mutables of mmrazor: data model\<close>

text \<open>
  The development follows \<^verbatim>\<open>mmrazor/models/mutables/mutable_module/diff_mutable_module.py\<close>.
  Tensors are idealised: an output tensor is an element of a real vector space, an
  architecture parameter is a one-dimensional tensor, that is a list of reals.  A candidate
  module is an opaque function from its input to an output tensor.  A
  \<^verbatim>\<open>nn.ModuleDict\<close> is an ordered dictionary, here an association list in
  insertion order.
\<close>

datatype error = AssertionError | AttributeError | KeyError | TypeError | IndexError | BuildError

type_synonym ('x, 'y) module = "'x \<Rightarrow> 'y"

type_synonym ('x, 'y) module_dict = "(string \<times> ('x, 'y) module) list"

text \<open>
  The attributes every mutable of this file carries: \<^verbatim>\<open>_candidates\<close>,
  \<^verbatim>\<open>_is_fixed\<close> and \<^verbatim>\<open>_chosen\<close> (\<^verbatim>\<open>None\<close> until the mutable is fixed).
\<close>

record ('x, 'y) mutable =
  candidates :: "('x, 'y) module_dict"
  is_fixed :: bool
  chosen :: "string list option"

text \<open>\<^verbatim>\<open>OneHotMutableOP\<close> stores the weights it sampled last in \<^verbatim>\<open>arch_weights\<close>.\<close>

record ('x, 'y) one_hot_mutable = "('x, 'y) mutable" +
  arch_weights :: "real list option"

text \<open>
  \<^verbatim>\<open>DiffChoiceRoute\<close> adds the mode flag, the number of edges to keep and the snapshot
  \<^verbatim>\<open>_unfixed_choices\<close>, an attribute that does not exist before the first call of
  \<^verbatim>\<open>fix_chosen\<close>.
\<close>

record ('x, 'y) choice_route = "('x, 'y) mutable" +
  with_arch_param :: bool
  num_chosen :: int
  unfixed_choices :: "string list option"

section \<open>Python and torch primitives\<close>

text \<open>Python's \<^verbatim>\<open>sum\<close>: a left fold of \<^verbatim>\<open>+\<close> from \<^verbatim>\<open>0\<close>, which added to a tensor is that tensor.\<close>

definition py_sum :: "'y::real_vector list \<Rightarrow> 'y" where
  "py_sum outputs = foldl (+) 0 outputs"

text \<open>\<^verbatim>\<open>F.softmax(arch_param, -1)\<close> on a one-dimensional tensor, over the reals.\<close>

definition softmax :: "real list \<Rightarrow> real list" where
  "softmax a = map (\<lambda>v. exp v / sum_list (map exp a)) a"

text \<open>
  \<^verbatim>\<open>DiffMutableModule.compute_arch_probs\<close>.  The torch function reads an attribute of
  its argument, so \<^verbatim>\<open>None\<close> makes it raise.
\<close>

definition compute_arch_probs :: "real list option \<Rightarrow> error + real list" where
  "compute_arch_probs arch_param =
     (case arch_param of None \<Rightarrow> Inl AttributeError | Some a \<Rightarrow> Inr (softmax a))"

text \<open>\<^verbatim>\<open>d[key]\<close> on an ordered dictionary.\<close>

definition getitem :: "(string \<times> 'v) list \<Rightarrow> string \<Rightarrow> error + 'v" where
  "getitem d key = (case map_of d key of None \<Rightarrow> Inl KeyError | Some v \<Rightarrow> Inr v)"

text \<open>\<^verbatim>\<open>d.pop(key)\<close>, for its effect on the dictionary; the other entries keep their order.\<close>

definition pop :: "string \<Rightarrow> (string \<times> 'v) list \<Rightarrow> (string \<times> 'v) list" where
  "pop key d = filter (\<lambda>kv. fst kv \<noteq> key) d"

text \<open>The property \<^verbatim>\<open>choices\<close>: \<^verbatim>\<open>list(self._candidates.keys())\<close>.\<close>

definition choices :: "('x, 'y, 'z) mutable_scheme \<Rightarrow> string list" where
  "choices m = map fst (candidates m)"

section \<open>DiffMutableModule\<close>

text \<open>
  \<^verbatim>\<open>DiffMutableModule.forward\<close> dispatches on \<^verbatim>\<open>is_fixed\<close>; the two methods it calls
  are abstract and supplied by the subclass.
\<close>

definition forward ::
  "(('x, 'y, 'z) mutable_scheme \<Rightarrow> 'i \<Rightarrow> 'r) \<Rightarrow>
   (('x, 'y, 'z) mutable_scheme \<Rightarrow> 'i \<Rightarrow> real list option \<Rightarrow> 'r) \<Rightarrow>
   ('x, 'y, 'z) mutable_scheme \<Rightarrow> 'i \<Rightarrow> real list option \<Rightarrow> 'r" where
  "forward fwd_fixed fwd_arch_param m x arch_param =
     (if is_fixed m then fwd_fixed m x else fwd_arch_param m x arch_param)"

section \<open>DiffMutableOP\<close>

text \<open>
  The generator of \<^verbatim>\<open>forward_fixed\<close>: one output per name of \<^verbatim>\<open>_chosen\<close>, in that
  order, stopping at the first name that is no key of \<^verbatim>\<open>_candidates\<close>.
\<close>

fun fixed_outputs ::
  "('x, 'y) module_dict \<Rightarrow> 'x \<Rightarrow> string list \<Rightarrow> 'y list \<Rightarrow> error + 'y list" where
  "fixed_outputs cands x [] outputs = Inr outputs"
| "fixed_outputs cands x (choice # rest) outputs =
     (case getitem cands choice of
        Inl e \<Rightarrow> Inl e
      | Inr mdl \<Rightarrow> fixed_outputs cands x rest (outputs @ [mdl x]))"

definition DiffMutableOP_forward_fixed ::
  "('x, 'y::real_vector, 'z) mutable_scheme \<Rightarrow> 'x \<Rightarrow> error + 'y" where
  "DiffMutableOP_forward_fixed m x =
     (case chosen m of
        None \<Rightarrow> Inl TypeError
      | Some cs \<Rightarrow>
          (case fixed_outputs (candidates m) x cs [] of
             Inl e \<Rightarrow> Inl e
           | Inr outputs \<Rightarrow> Inr (py_sum outputs)))"

text \<open>The loop of \<^verbatim>\<open>forward_arch_param\<close> over \<^verbatim>\<open>zip(probs, self._candidates.values())\<close>.\<close>

fun weighted_outputs ::
  "(real \<times> ('x, 'y::real_vector) module) list \<Rightarrow> 'x \<Rightarrow> 'y list \<Rightarrow> 'y list" where
  "weighted_outputs [] x outputs = outputs"
| "weighted_outputs ((prob, mdl) # rest) x outputs =
     (if prob > 0 then weighted_outputs rest x (outputs @ [prob *\<^sub>R mdl x])
      else weighted_outputs rest x outputs)"

text \<open>The loop of \<^verbatim>\<open>forward_all\<close> over \<^verbatim>\<open>self._candidates.values()\<close>.\<close>

fun all_outputs :: "('x, 'y) module list \<Rightarrow> 'x \<Rightarrow> 'y list \<Rightarrow> 'y list" where
  "all_outputs [] x outputs = outputs"
| "all_outputs (op # rest) x outputs = all_outputs rest x (outputs @ [op x])"

definition DiffMutableOP_forward_all ::
  "('x, 'y::real_vector, 'z) mutable_scheme \<Rightarrow> 'x \<Rightarrow> error + 'y" where
  "DiffMutableOP_forward_all m x = Inr (py_sum (all_outputs (map snd (candidates m)) x []))"

definition DiffMutableOP_forward_arch_param ::
  "('x, 'y::real_vector, 'z) mutable_scheme \<Rightarrow> 'x \<Rightarrow> real list option \<Rightarrow> error + 'y" where
  "DiffMutableOP_forward_arch_param m x arch_param =
     (case arch_param of
        None \<Rightarrow> DiffMutableOP_forward_all m x
      | Some a \<Rightarrow>
          (case compute_arch_probs (Some a) of
             Inl e \<Rightarrow> Inl e
           | Inr probs \<Rightarrow>
               Inr (py_sum (weighted_outputs (zip probs (map snd (candidates m))) x []))))"

definition DiffMutableOP_forward ::
  "('x, 'y::real_vector, 'z) mutable_scheme \<Rightarrow> 'x \<Rightarrow> real list option \<Rightarrow> error + 'y" where
  "DiffMutableOP_forward = forward DiffMutableOP_forward_fixed DiffMutableOP_forward_arch_param"

text \<open>
  The argument of \<^verbatim>\<open>DiffMutableOP.fix_chosen\<close> is a name or a list of names
  (\<^verbatim>\<open>Union[str, List[str]]\<close>).
\<close>

datatype chosen_arg = Name string | Names "string list"

definition normalize_chosen :: "chosen_arg \<Rightarrow> string list" where
  "normalize_chosen c = (case c of Name s \<Rightarrow> [s] | Names cs \<Rightarrow> cs)"

text \<open>
  The pruning loop of both \<^verbatim>\<open>fix_chosen\<close> methods: it runs over the list of keys taken
  before the loop and pops every key that is not chosen.
\<close>

fun prune :: "string list \<Rightarrow> string list \<Rightarrow> (string \<times> 'v) list \<Rightarrow> (string \<times> 'v) list" where
  "prune [] cs cands = cands"
| "prune (c # rest) cs cands =
     (if c \<notin> set cs then prune rest cs (pop c cands) else prune rest cs cands)"

text \<open>
  Modelled from the spec: the property \<^verbatim>\<open>is_fixed\<close> and its setter are defined in the
  base class, which is not among the sources.  The spec describes the mode flag as a
  boolean that goes from false to true once; the sources initialise \<^verbatim>\<open>_is_fixed\<close> and
  read \<^verbatim>\<open>is_fixed\<close>, so reading the property reads the field and setting it stores
  the value.
\<close>

definition set_is_fixed ::
  "bool \<Rightarrow> ('x, 'y, 'z) mutable_scheme \<Rightarrow> ('x, 'y, 'z) mutable_scheme" where
  [simp]: "set_is_fixed b m = m\<lparr>is_fixed := b\<rparr>"

text \<open>
  A method that mutates the object and may raise returns the outcome together with the
  object as the call leaves it.
\<close>

definition DiffMutableOP_fix_chosen ::
  "chosen_arg \<Rightarrow> ('x, 'y, 'z) mutable_scheme \<Rightarrow> (error + unit) \<times> ('x, 'y, 'z) mutable_scheme" where
  "DiffMutableOP_fix_chosen c m =
     (if is_fixed m then (Inl AttributeError, m)
      else
        let cs = normalize_chosen c;
            m1 = m\<lparr>candidates := prune (choices m) cs (candidates m)\<rparr>;
            m2 = m1\<lparr>chosen := Some cs\<rparr>
        in (Inr (), set_is_fixed True m2))"

section \<open>DiffMutableOP: construction\<close>

text \<open>
  The candidate configurations are dictionaries that the caller owns and passes by
  reference.  A configuration is an association list in insertion order, the store maps
  a reference to the dictionary it denotes, and \<^verbatim>\<open>candidates\<close> maps each name to a
  reference.
\<close>

type_synonym 'v cfg = "(string \<times> 'v) list"

type_synonym 'v store = "nat \<Rightarrow> 'v cfg"

text \<open>
  \<^verbatim>\<open>d.update(other)\<close>: each item of \<^verbatim>\<open>other\<close> in turn is stored in \<^verbatim>\<open>d\<close>; a key that
  is present keeps its place and takes the new value, a new key goes to the end.
\<close>

definition dict_update :: "'v cfg \<Rightarrow> 'v cfg \<Rightarrow> 'v cfg" where
  "dict_update d other = fold (\<lambda>kv. AList.update (fst kv) (snd kv)) other d"

text \<open>
  The loop of \<^verbatim>\<open>_build_ops\<close>.  The registry's \<^verbatim>\<open>MODELS.build\<close> is outside the sources:
  it is the parameter \<open>build\<close>, which reads a configuration and returns a module or
  raises.  An exception leaves the store as the loop has changed it so far.
\<close>

fun build_ops_loop ::
  "('v cfg \<Rightarrow> error + ('x, 'y) module) \<Rightarrow> (string \<times> nat) list \<Rightarrow> 'v cfg option \<Rightarrow>
   ('x, 'y) module_dict \<Rightarrow> 'v store \<Rightarrow> (error + ('x, 'y) module_dict) \<times> 'v store" where
  "build_ops_loop build [] module_kwargs ops h = (Inr ops, h)"
| "build_ops_loop build ((name, op_cfg) # rest) module_kwargs ops h =
     (if name \<in> fst ` set ops then (Inl AssertionError, h)
      else
        let h' = (case module_kwargs of
                    None \<Rightarrow> h
                  | Some kw \<Rightarrow> h(op_cfg := dict_update (h op_cfg) kw))
        in (case build (h' op_cfg) of
              Inl e \<Rightarrow> (Inl e, h')
            | Inr mdl \<Rightarrow> build_ops_loop build rest module_kwargs (ops @ [(name, mdl)]) h'))"

definition build_ops ::
  "('v cfg \<Rightarrow> error + ('x, 'y) module) \<Rightarrow> (string \<times> nat) list \<Rightarrow> 'v cfg option \<Rightarrow>
   'v store \<Rightarrow> (error + ('x, 'y) module_dict) \<times> 'v store" where
  "build_ops build cands module_kwargs h = build_ops_loop build cands module_kwargs [] h"

text \<open>
  \<^verbatim>\<open>DiffMutableOP.__init__\<close>.  The base class keeps \<^verbatim>\<open>module_kwargs\<close> as it is given,
  and the constructor hands it on to \<^verbatim>\<open>_build_ops\<close>.
\<close>

definition DiffMutableOP_init ::
  "('v cfg \<Rightarrow> error + ('x, 'y) module) \<Rightarrow> (string \<times> nat) list \<Rightarrow> 'v cfg option \<Rightarrow>
   'v store \<Rightarrow> (error + ('x, 'y) mutable) \<times> 'v store" where
  "DiffMutableOP_init build cands module_kwargs h =
     (if \<not> length cands \<ge> 1 then (Inl AssertionError, h)
      else
        (case build_ops build cands module_kwargs h of
           (Inl e, h') \<Rightarrow> (Inl e, h')
         | (Inr ops, h') \<Rightarrow>
             (Inr \<lparr>candidates = ops, is_fixed = False, chosen = None\<rparr>, h')))"

section \<open>OneHotMutableOP\<close>

text \<open>
  \<^verbatim>\<open>sample_weights\<close> draws from a one-hot categorical distribution.  The draw is the
  parameter \<open>draw\<close>, from the probabilities to the sampled weights.
\<close>

definition sample_weights ::
  "(real list \<Rightarrow> real list) \<Rightarrow> real list \<Rightarrow> real list \<Rightarrow> bool \<Rightarrow> real list" where
  "sample_weights draw arch_param probs random_sample =
     (if random_sample then draw (map (\<lambda>_. 1) arch_param) else draw probs)"

definition OneHotMutableOP_forward_arch_param ::
  "(real list \<Rightarrow> real list) \<Rightarrow> ('x, 'y::real_vector, 'z) one_hot_mutable_scheme \<Rightarrow> 'x \<Rightarrow>
   real list option \<Rightarrow> (error + 'y) \<times> ('x, 'y, 'z) one_hot_mutable_scheme" where
  "OneHotMutableOP_forward_arch_param draw m x arch_param =
     (case arch_param of
        None \<Rightarrow> (DiffMutableOP_forward_all m x, m)
      | Some a \<Rightarrow>
          (case compute_arch_probs (Some a) of
             Inl e \<Rightarrow> (Inl e, m)
           | Inr probs \<Rightarrow>
               let w = sample_weights draw a probs False;
                   m' = m\<lparr>arch_weights := Some w\<rparr>
               in (Inr (py_sum (weighted_outputs (zip w (map snd (candidates m'))) x [])), m')))"

definition OneHotMutableOP_forward ::
  "(real list \<Rightarrow> real list) \<Rightarrow> ('x, 'y::real_vector, 'z) one_hot_mutable_scheme \<Rightarrow> 'x \<Rightarrow>
   real list option \<Rightarrow> (error + 'y) \<times> ('x, 'y, 'z) one_hot_mutable_scheme" where
  "OneHotMutableOP_forward draw =
     forward (\<lambda>m x. (DiffMutableOP_forward_fixed m x, m))
       (OneHotMutableOP_forward_arch_param draw)"

section \<open>DiffChoiceRoute\<close>

text \<open>
  \<^verbatim>\<open>DiffChoiceRoute.__init__\<close>; an argument left out is \<open>None\<close> and takes the default
  of the signature.
\<close>

definition DiffChoiceRoute_init ::
  "('x, 'y) module_dict \<Rightarrow> int option \<Rightarrow> bool option \<Rightarrow> error + ('x, 'y) choice_route" where
  "DiffChoiceRoute_init edges num_chsoen with_arch_param_arg =
     (if \<not> length edges \<ge> 1 then Inl AssertionError
      else Inr \<lparr>candidates = edges, is_fixed = False, chosen = None,
                with_arch_param = (case with_arch_param_arg of None \<Rightarrow> False | Some b \<Rightarrow> b),
                num_chosen = (case num_chsoen of None \<Rightarrow> 2 | Some n \<Rightarrow> n),
                unfixed_choices = None\<rparr>)"

text \<open>
  The forward methods of the route call one edge per input.  To state which edges a call
  invokes, each of them returns, next to its outcome, the names of the edges it has
  invoked, in the order of the calls.
\<close>

fun route_fixed_outputs ::
  "('x, 'y) module_dict \<Rightarrow> string list \<Rightarrow> (string \<times> 'x) list \<Rightarrow> 'y list \<Rightarrow> string list \<Rightarrow>
   (error + 'y list) \<times> string list" where
  "route_fixed_outputs cands cs [] outputs calls = (Inr outputs, calls)"
| "route_fixed_outputs cands cs ((choice, x) # rest) outputs calls =
     (if choice \<in> set cs then
        (case getitem cands choice of
           Inl e \<Rightarrow> (Inl e, calls)
         | Inr mdl \<Rightarrow> route_fixed_outputs cands cs rest (outputs @ [mdl x]) (calls @ [choice]))
      else route_fixed_outputs cands cs rest outputs calls)"

definition DiffChoiceRoute_forward_fixed ::
  "('x, 'y::real_vector, 'z) choice_route_scheme \<Rightarrow> 'x list \<Rightarrow> (error + 'y) \<times> string list" where
  "DiffChoiceRoute_forward_fixed r inputs =
     (case chosen r of
        None \<Rightarrow> (Inl AssertionError, [])
      | Some cs \<Rightarrow>
          (case unfixed_choices r of
             None \<Rightarrow> (Inl AttributeError, [])
           | Some ucs \<Rightarrow>
               (case route_fixed_outputs (candidates r) cs (zip ucs inputs) [] [] of
                  (Inl e, calls) \<Rightarrow> (Inl e, calls)
                | (Inr outputs, calls) \<Rightarrow> (Inr (py_sum outputs), calls))))"

fun route_all_outputs ::
  "((string \<times> ('x, 'y) module) \<times> 'x) list \<Rightarrow> 'y list \<Rightarrow> string list \<Rightarrow> 'y list \<times> string list" where
  "route_all_outputs [] outputs calls = (outputs, calls)"
| "route_all_outputs (((name, op), input) # rest) outputs calls =
     route_all_outputs rest (outputs @ [op input]) (calls @ [name])"

definition DiffChoiceRoute_forward_all ::
  "('x, 'y::real_vector, 'z) choice_route_scheme \<Rightarrow> 'x list \<Rightarrow> (error + 'y) \<times> string list" where
  "DiffChoiceRoute_forward_all r x =
     (if length x \<noteq> length (candidates r) then (Inl AssertionError, [])
      else
        (case route_all_outputs (zip (candidates r) x) [] [] of
           (outputs, calls) \<Rightarrow> (Inr (py_sum outputs), calls)))"

fun route_weighted_outputs ::
  "(real \<times> (string \<times> ('x, 'y::real_vector) module) \<times> 'x) list \<Rightarrow> 'y list \<Rightarrow> string list \<Rightarrow>
   'y list \<times> string list" where
  "route_weighted_outputs [] outputs calls = (outputs, calls)"
| "route_weighted_outputs ((prob, (name, mdl), input) # rest) outputs calls =
     (if prob > 0 then
        route_weighted_outputs rest (outputs @ [prob *\<^sub>R mdl input]) (calls @ [name])
      else route_weighted_outputs rest outputs calls)"

definition DiffChoiceRoute_forward_arch_param ::
  "('x, 'y::real_vector, 'z) choice_route_scheme \<Rightarrow> 'x list \<Rightarrow> real list option \<Rightarrow>
   (error + 'y) \<times> string list" where
  "DiffChoiceRoute_forward_arch_param r x arch_param =
     (if length x \<noteq> length (candidates r) then (Inl AssertionError, [])
      else if with_arch_param r then
        (case compute_arch_probs arch_param of
           Inl e \<Rightarrow> (Inl e, [])
         | Inr probs \<Rightarrow>
             (case route_weighted_outputs (zip probs (zip (candidates r) x)) [] [] of
                (outputs, calls) \<Rightarrow> (Inr (py_sum outputs), calls)))
      else DiffChoiceRoute_forward_all r x)"

definition DiffChoiceRoute_forward ::
  "('x, 'y::real_vector, 'z) choice_route_scheme \<Rightarrow> 'x list \<Rightarrow> real list option \<Rightarrow>
   (error + 'y) \<times> string list" where
  "DiffChoiceRoute_forward =
     forward DiffChoiceRoute_forward_fixed DiffChoiceRoute_forward_arch_param"

text \<open>
  \<^verbatim>\<open>DiffChoiceRoute.fix_chosen\<close>: the snapshot is stored first, the test of
  \<^verbatim>\<open>is_fixed\<close> follows it.
\<close>

definition DiffChoiceRoute_fix_chosen ::
  "string list \<Rightarrow> ('x, 'y, 'z) choice_route_scheme \<Rightarrow>
   (error + unit) \<times> ('x, 'y, 'z) choice_route_scheme" where
  "DiffChoiceRoute_fix_chosen cs r =
     (let r0 = r\<lparr>unfixed_choices := Some (choices r)\<rparr>
      in if is_fixed r0 then (Inl AttributeError, r0)
         else
           let r1 = r0\<lparr>candidates := prune (choices r0) cs (candidates r0)\<rparr>;
               r2 = r1\<lparr>chosen := Some cs\<rparr>
           in (Inr (), set_is_fixed True r2))"

text \<open>The slice \<^verbatim>\<open>xs[:n]\<close>; a negative \<^verbatim>\<open>n\<close> counts from the end.\<close>

definition slice_to :: "int \<Rightarrow> 'a list \<Rightarrow> 'a list" where
  "slice_to n xs = (if 0 \<le> n then take (nat n) xs else take (length xs - nat (- n)) xs)"

text \<open>The comprehension \<^verbatim>\<open>[self.choices[i] for i in choice_idx]\<close>.\<close>

fun choice_names :: "string list \<Rightarrow> nat list \<Rightarrow> string list \<Rightarrow> error + string list" where
  "choice_names chs [] choice = Inr choice"
| "choice_names chs (i # rest) choice =
     (if i < length chs then choice_names chs rest (choice @ [chs ! i]) else Inl IndexError)"

text \<open>
  \<^verbatim>\<open>DiffChoiceRoute.sample_choice\<close>.  \<^verbatim>\<open>torch.argsort\<close> is the parameter \<open>argsort\<close>: torch
  promises the indices that sort its argument in ascending order and leaves the order of
  equal values open.
\<close>

definition DiffChoiceRoute_sample_choice ::
  "(real list \<Rightarrow> nat list) \<Rightarrow> ('x, 'y, 'z) choice_route_scheme \<Rightarrow> real list \<Rightarrow>
   error + string list" where
  "DiffChoiceRoute_sample_choice argsort r arch_param =
     (let sort_idx = argsort (map uminus arch_param);
          choice_idx = slice_to (num_chosen r) sort_idx
      in choice_names (choices r) choice_idx [])"

text \<open>What torch promises of the result \<open>idx\<close> of \<^verbatim>\<open>torch.argsort\<close> on \<open>v\<close>.\<close>

definition is_argsort :: "nat list \<Rightarrow> real list \<Rightarrow> bool" where
  "is_argsort idx v \<longleftrightarrow>
     distinct idx \<and> set idx = {..<length v} \<and> sorted (map (\<lambda>i. v ! i) idx)"

text \<open>One such function: the stable sort of the indices by their values.\<close>

definition stable_argsort :: "real list \<Rightarrow> nat list" where
  "stable_argsort v = sort_key (\<lambda>i. v ! i) [0..<length v]"

section \<open>A concrete search space\<close>

text \<open>
  Three candidates on real numbers, used where a statement is instantiated: the identity,
  doubling and tripling.
\<close>

definition three_ops :: "(real, real) module_dict" where
  "three_ops = [(''a'', id), (''b'', (*) 2), (''c'', (*) 3)]"

definition three_op_mutable :: "(real, real) mutable" where
  "three_op_mutable = \<lparr>candidates = three_ops, is_fixed = False, chosen = None\<rparr>"

definition three_op_one_hot :: "(real, real) one_hot_mutable" where
  "three_op_one_hot =
     \<lparr>candidates = three_ops, is_fixed = False, chosen = None, arch_weights = None\<rparr>"

definition three_edge_route :: "bool \<Rightarrow> (real, real) choice_route" where
  "three_edge_route w =
     \<lparr>candidates = three_ops, is_fixed = False, chosen = None, with_arch_param = w,
      num_chosen = 2, unfixed_choices = None\<rparr>"

text \<open>The route without architecture parameter, fixed to its third edge.\<close>

definition route_fixed_to_c :: "(real, real) choice_route" where
  "route_fixed_to_c = snd (DiffChoiceRoute_fix_chosen [''c''] (three_edge_route False))"

text \<open>A route with a single edge, built with the defaults of the constructor.\<close>

definition single_edge_route :: "(real, real) choice_route" where
  "single_edge_route =
     \<lparr>candidates = [(''a'', id)], is_fixed = False, chosen = None, with_arch_param = False,
      num_chosen = 2, unfixed_choices = None\<rparr>"

text \<open>
  Two convolution configurations in the caller's store, the candidates that refer to them,
  and a factory that builds the scaling by the kernel size.
\<close>

definition conv_store :: "int store" where
  "conv_store = (\<lambda>_. [])(0 := [(''kernel'', 3), (''stride'', 1)], 1 := [(''kernel'', 5)])"

definition conv_candidates :: "(string \<times> nat) list" where
  "conv_candidates = [(''conv3'', 0), (''conv5'', 1)]"

definition conv_build :: "int cfg \<Rightarrow> error + (real, real) module" where
  "conv_build cfg = (case map_of cfg ''kernel'' of None \<Rightarrow> Inl BuildError | Some k \<Rightarrow> Inr ((*) (real_of_int k)))"

section \<open>Basic facts\<close>

lemma foldl_add_sum_list: "foldl (+) (s::'y::real_vector) xs = s + sum_list xs"
  by (induction xs arbitrary: s) (simp_all add: add.assoc)

lemma py_sum_sum_list: "py_sum xs = sum_list xs"
  by (simp add: py_sum_def foldl_add_sum_list)

lemma length_softmax: "length (softmax a) = length a"
  by (simp add: softmax_def)

lemma softmax_zeros2: "softmax [0, 0] = [1/2, 1/2]"
  by (simp add: softmax_def)

lemma softmax_zeros3: "softmax [0, 0, 0] = [1/3, 1/3, 1/3]"
  by (simp add: softmax_def)

subsection \<open>The loops in closed form\<close>

lemma pop_commute_filter: "pop c (filter P d) = filter P (pop c d)"
  by (induction d) (auto simp: pop_def)

lemma prune_filter:
  "prune ks cs cands = filter (\<lambda>kv. fst kv \<in> set cs \<or> fst kv \<notin> set ks) cands"
proof (induction ks arbitrary: cands)
  case Nil
  then show ?case by simp
next
  case (Cons k ks)
  show ?case
    by (auto simp: Cons.IH pop_def intro: filter_cong)
qed

lemma prune_choices:
  "prune (map fst cands) cs cands = filter (\<lambda>kv. fst kv \<in> set cs) cands"
  by (auto simp: prune_filter intro: filter_cong)

lemma weighted_outputs_eq:
  "weighted_outputs ps x outputs =
     outputs @ map (\<lambda>pf. fst pf *\<^sub>R snd pf x) (filter (\<lambda>pf. 0 < fst pf) ps)"
  by (induction ps x outputs rule: weighted_outputs.induct) simp_all

lemma all_outputs_eq: "all_outputs ops x outputs = outputs @ map (\<lambda>f. f x) ops"
  by (induction ops arbitrary: outputs) simp_all

lemma fixed_outputs_eq:
  "set cs \<subseteq> fst ` set cands \<Longrightarrow>
   fixed_outputs cands x cs outputs = Inr (outputs @ map (\<lambda>c. the (map_of cands c) x) cs)"
proof (induction cs arbitrary: outputs)
  case Nil
  then show ?case by simp
next
  case (Cons c cs)
  from Cons.prems have "c \<in> fst ` set cands" by simp
  then obtain f where f: "map_of cands c = Some f"
    by (metis domD dom_map_of_conv_image_fst)
  with Cons show ?case by (simp add: getitem_def)
qed

lemma sum_list_filter_upt:
  fixes f :: "nat \<Rightarrow> 'y::real_vector"
  shows "sum_list (map f (filter P [0..<n])) = (\<Sum>i | i < n \<and> P i. f i)"
proof -
  have "distinct (filter P [0..<n])" by simp
  then have "sum_list (map f (filter P [0..<n])) = sum f (set (filter P [0..<n]))"
    by (rule sum_list_distinct_conv_sum_set)
  moreover have "set (filter P [0..<n]) = {i. i < n \<and> P i}" by auto
  ultimately show ?thesis by simp
qed

lemma zip_filter_index:
  "map g (filter Q (zip ps fs)) =
   map (\<lambda>i. g (ps ! i, fs ! i)) (filter (\<lambda>i. Q (ps ! i, fs ! i)) [0..<min (length ps) (length fs)])"
proof -
  have "zip ps fs = map (\<lambda>i. (ps ! i, fs ! i)) [0..<min (length ps) (length fs)]"
    by (simp add: list_eq_iff_nth_eq)
  then show ?thesis by (simp add: filter_map comp_def)
qed

lemma forward_arch_param_sum:
  "DiffMutableOP_forward_arch_param m x (Some a) =
     Inr (\<Sum>i | i < min (length a) (length (candidates m)) \<and> 0 < softmax a ! i.
            (softmax a ! i) *\<^sub>R snd (candidates m ! i) x)"
  by (simp add: DiffMutableOP_forward_arch_param_def compute_arch_probs_def py_sum_sum_list
      weighted_outputs_eq zip_filter_index length_softmax sum_list_filter_upt cong: conj_cong)

lemma sum_list_map_filter_nth:
  fixes g :: "'a \<Rightarrow> 'y::real_vector"
  shows "sum_list (map g (filter P d)) = (\<Sum>i | i < length d \<and> P (d ! i). g (d ! i))"
proof -
  have "map g (filter P d) = map g (filter P (map (\<lambda>i. d ! i) [0..<length d]))"
    by (simp only: map_nth)
  also have "\<dots> = map (\<lambda>i. g (d ! i)) (filter (\<lambda>i. P (d ! i)) [0..<length d])"
    by (simp only: filter_map comp_def map_map)
  finally show ?thesis by (simp only: sum_list_filter_upt)
qed

subsection \<open>Fixing\<close>

lemma fix_op:
  assumes "\<not> is_fixed m" "distinct (choices m)"
    "set (normalize_chosen c) \<subseteq> set (choices m)"
  shows "fst (DiffMutableOP_fix_chosen c m) = Inr ()"
   "candidates (snd (DiffMutableOP_fix_chosen c m)) = filter (\<lambda>kv. fst kv \<in> set (normalize_chosen c)) (candidates m)"
   "is_fixed (snd (DiffMutableOP_fix_chosen c m))"
   "chosen (snd (DiffMutableOP_fix_chosen c m)) = Some (normalize_chosen c)"
  using assms by (simp_all add: DiffMutableOP_fix_chosen_def Let_def choices_def prune_choices)

lemma length_filter_keys:
  assumes "distinct (map fst d)" "set cs \<subseteq> fst ` set d"
  shows "length (filter (\<lambda>kv. fst kv \<in> set cs) d) = card (set cs)"
proof -
  have "length (filter (\<lambda>kv. fst kv \<in> set cs) d) = length (filter (\<lambda>k. k \<in> set cs) (map fst d))"
    by (simp add: filter_map comp_def)
  also have "\<dots> = card (set (filter (\<lambda>k. k \<in> set cs) (map fst d)))"
    using assms(1) distinct_card[of "filter (\<lambda>k. k \<in> set cs) (map fst d)"]
    by (simp only: distinct_filter)
  also have "set (filter (\<lambda>k. k \<in> set cs) (map fst d)) = set cs"
    using assms(2) by auto
  finally show ?thesis .
qed

lemma map_of_filter_keys:
  "k \<in> set cs \<Longrightarrow> map_of (filter (\<lambda>kv. fst kv \<in> set cs) d) k = map_of d k"
  by (induction d) auto

lemma fix_route:
  assumes "\<not> is_fixed r"
  shows "fst (DiffChoiceRoute_fix_chosen cs r) = Inr ()"
   "candidates (snd (DiffChoiceRoute_fix_chosen cs r)) = filter (\<lambda>kv. fst kv \<in> set cs) (candidates r)"
   "is_fixed (snd (DiffChoiceRoute_fix_chosen cs r))"
   "chosen (snd (DiffChoiceRoute_fix_chosen cs r)) = Some cs"
   "unfixed_choices (snd (DiffChoiceRoute_fix_chosen cs r)) = Some (choices r)"
  using assms by (simp_all add: DiffChoiceRoute_fix_chosen_def Let_def choices_def prune_choices)

lemma route_fixed_outputs_eq:
  assumes "\<forall>c \<in> set cs \<inter> fst ` set zs. c \<in> fst ` set cands"
  shows "route_fixed_outputs cands cs zs outputs calls =
    (Inr (outputs @ map (\<lambda>cx. the (map_of cands (fst cx)) (snd cx)) (filter (\<lambda>cx. fst cx \<in> set cs) zs)),
     calls @ map fst (filter (\<lambda>cx. fst cx \<in> set cs) zs))"
  using assms
proof (induction zs arbitrary: outputs calls)
  case Nil
  then show ?case by simp
next
  case (Cons z zs)
  obtain c x where z: "z = (c, x)" by (cases z)
  show ?case
  proof (cases "c \<in> set cs")
    case True
    with Cons.prems z have "c \<in> fst ` set cands" by auto
    then obtain f where f: "map_of cands c = Some f"
      by (metis domD dom_map_of_conv_image_fst)
    from Cons.prems have "\<forall>c \<in> set cs \<inter> fst ` set zs. c \<in> fst ` set cands" by auto
    from Cons.IH[OF this] True f z show ?thesis by (simp add: getitem_def)
  next
    case False
    from Cons.prems have "\<forall>c \<in> set cs \<inter> fst ` set zs. c \<in> fst ` set cands" by auto
    from Cons.IH[OF this] False z show ?thesis by simp
  qed
qed

lemma route_all_outputs_eq:
  "route_all_outputs zs outputs calls =
     (outputs @ map (\<lambda>z. snd (fst z) (snd z)) zs, calls @ map (\<lambda>z. fst (fst z)) zs)"
  by (induction zs outputs calls rule: route_all_outputs.induct) simp_all

lemma route_weighted_outputs_eq:
  "route_weighted_outputs zs outputs calls =
     (outputs @ map (\<lambda>z. fst z *\<^sub>R snd (fst (snd z)) (snd (snd z))) (filter (\<lambda>z. 0 < fst z) zs),
      calls @ map (\<lambda>z. fst (fst (snd z))) (filter (\<lambda>z. 0 < fst z) zs))"
  by (induction zs outputs calls rule: route_weighted_outputs.induct) simp_all

lemma map_of_nth_distinct:
  "distinct (map fst d) \<Longrightarrow> i < length d \<Longrightarrow> map_of d (fst (d ! i)) = Some (snd (d ! i))"
  by (metis map_of_eq_Some_iff nth_mem prod.collapse)

lemma map_fst_zip_filter:
  "length ks = length xs \<Longrightarrow>
   map fst (filter (\<lambda>cx. P (fst cx)) (zip ks xs)) = filter P ks"
  by (induction ks xs rule: list_induct2) simp_all

lemma zip_map_nth:
  "zip ps fs = map (\<lambda>i. (ps ! i, fs ! i)) [0..<min (length ps) (length fs)]"
  by (simp add: list_eq_iff_nth_eq)

lemma map_fst_fst_zip: "length ps = length fs \<Longrightarrow> map (\<lambda>z. fst (fst z)) (zip ps fs) = map fst ps"
  by (induction ps fs rule: list_induct2) simp_all

lemma DiffChoiceRoute_forward_all_eq:
  fixes r :: "('x, 'y::real_vector, 'z) choice_route_scheme"
  assumes "length x = length (candidates r)"
  shows "DiffChoiceRoute_forward_all r x =
    (Inr (\<Sum>i<length (candidates r). snd (candidates r ! i) (x ! i)), choices r)"
proof -
  have z: "zip (candidates r) x = map (\<lambda>i. (candidates r ! i, x ! i)) [0..<length (candidates r)]"
    using assms zip_map_nth[of "candidates r" x] by simp
  have "map (\<lambda>z. snd (fst z) (snd z)) (zip (candidates r) x) =
        map (\<lambda>i. snd (candidates r ! i) (x ! i)) [0..<length (candidates r)]"
    by (subst z) (simp only: map_map comp_def fst_conv snd_conv)
  moreover have "map (\<lambda>z. fst (fst z)) (zip (candidates r) x) = choices r"
    using assms map_fst_fst_zip[of "candidates r" x] by (simp add: choices_def)
  moreover have "sum_list (map (\<lambda>i. snd (candidates r ! i) (x ! i)) [0..<length (candidates r)]) =
     (\<Sum>i<length (candidates r). snd (candidates r ! i) (x ! i))"
    by (simp add: sum_list_distinct_conv_sum_set atLeast0LessThan)
  ultimately show ?thesis
    using assms
    by (simp add: DiffChoiceRoute_forward_all_def route_all_outputs_eq py_sum_sum_list)
qed

lemma DiffMutableOP_fix_chosen_fixed:
  "is_fixed m \<Longrightarrow> DiffMutableOP_fix_chosen c m = (Inl AttributeError, m)"
  by (simp add: DiffMutableOP_fix_chosen_def)

lemma DiffChoiceRoute_fix_chosen_fixed:
  "is_fixed r \<Longrightarrow>
   DiffChoiceRoute_fix_chosen cs r = (Inl AttributeError, r\<lparr>unfixed_choices := Some (choices r)\<rparr>)"
  by (simp add: DiffChoiceRoute_fix_chosen_def Let_def)

subsection \<open>Sorting and slicing\<close>

lemma is_argsort_stable_argsort: "is_argsort (stable_argsort v) v"
  by (auto simp: is_argsort_def stable_argsort_def)

lemma slice_to_take:
  "slice_to n xs = take (if 0 \<le> n then nat n else length xs - nat (- n)) xs"
  by (simp add: slice_to_def)

lemma choice_names_eq:
  "\<forall>i \<in> set idx. i < length chs \<Longrightarrow>
   choice_names chs idx choice = Inr (choice @ map (\<lambda>i. chs ! i) idx)"
  by (induction idx arbitrary: choice) simp_all

lemma is_argsort_length: "is_argsort idx v \<Longrightarrow> length idx = length v"
  by (metis is_argsort_def distinct_card card_lessThan)

lemma sorted_prefix_dominates:
  assumes "sorted (map f xs)" "i \<in> set (take k xs)" "j \<in> set xs" "j \<notin> set (take k xs)"
  shows "f i \<le> f j"
proof -
  have "xs = take k xs @ drop k xs" by simp
  with assms(3,4) have j: "j \<in> set (drop k xs)" by (metis Un_iff set_append)
  have "sorted (map f (take k xs) @ map f (drop k xs))"
    using assms(1) by (simp only: map_append[symmetric] append_take_drop_id)
  with assms(2) j show ?thesis by (auto simp: sorted_append)
qed

lemma stable_argsort3: "stable_argsort [- (1/10), - (9/10), - (1/2)] = [1, 2, 0]"
  by (simp add: stable_argsort_def numeral_3_eq_3 sort_key_def)

subsection \<open>Configurations in the store\<close>

lemma map_of_dict_update:
  "map_of (dict_update d other) = map_of d ++ map_of (rev other)"
proof (induction other arbitrary: d)
  case Nil
  then show ?case by (simp add: dict_update_def)
next
  case (Cons kv other)
  have "map_of (dict_update d (kv # other)) = map_of (dict_update (AList.update (fst kv) (snd kv) d) other)"
    by (simp add: dict_update_def)
  also have "\<dots> = map_of (AList.update (fst kv) (snd kv) d) ++ map_of (rev other)"
    by (rule Cons.IH)
  also have "\<dots> = (map_of d ++ [fst kv \<mapsto> snd kv]) ++ map_of (rev other)"
    by (simp add: update_conv')
  finally show ?case by simp
qed

lemma map_of_rev_distinct: "distinct (map fst xs) \<Longrightarrow> map_of (rev xs) = map_of xs"
proof (induction xs)
  case Nil
  then show ?case by simp
next
  case (Cons x xs)
  then have "fst x \<notin> dom (map_of xs)" by (simp add: dom_map_of_conv_image_fst)
  then have "map_of xs (fst x) = None" by blast
  with Cons show ?case
    by (cases x) (auto simp: fun_eq_iff map_add_def split: option.splits)
qed

lemma map_of_dict_update_distinct:
  "distinct (map fst other) \<Longrightarrow> map_of (dict_update d other) = map_of d ++ map_of other"
  by (simp add: map_of_dict_update map_of_rev_distinct)

lemma build_ops_loop_step:
  assumes "build_ops_loop build ((name, op_cfg) # cands) (Some kw) ops h = (Inr ops', h')"
  shows "\<exists>mdl. build_ops_loop build cands (Some kw) (ops @ [(name, mdl)])
           (h(op_cfg := dict_update (h op_cfg) kw)) = (Inr ops', h')"
  using assms by (fastforce simp: Let_def split: if_splits sum.splits)

lemma map_add_twice: "m ++ k ++ k = m ++ k"
  by (simp add: fun_eq_iff map_add_def split: option.splits)

lemma build_ops_loop_frame:
  assumes "build_ops_loop build cands (Some kw) ops h = (Inr ops', h')"
    and "a \<notin> snd ` set cands"
  shows "h' a = h a"
  using assms
proof (induction cands arbitrary: ops h)
  case Nil
  then show ?case by simp
next
  case (Cons na cands)
  obtain name op_cfg where na: "na = (name, op_cfg)" by (cases na)
  from Cons.prems(1) na obtain mdl where
    rest: "build_ops_loop build cands (Some kw) (ops @ [(name, mdl)])
             (h(op_cfg := dict_update (h op_cfg) kw)) = (Inr ops', h')"
    using build_ops_loop_step by blast
  from Cons.prems(2) na have "a \<notin> snd ` set cands" "a \<noteq> op_cfg" by auto
  with Cons.IH[OF rest] show ?case by simp
qed

lemma build_ops_loop_store:
  assumes "build_ops_loop build cands (Some kw) ops h = (Inr ops', h')"
    and "distinct (map fst kw)"
  shows "map_of (h' a) = (if a \<in> snd ` set cands then map_of (h a) ++ map_of kw else map_of (h a))"
  using assms(1)
proof (induction cands arbitrary: ops h)
  case Nil
  then show ?case by simp
next
  case (Cons na cands)
  obtain name op_cfg where na: "na = (name, op_cfg)" by (cases na)
  from Cons.prems na obtain mdl where
    rest: "build_ops_loop build cands (Some kw) (ops @ [(name, mdl)])
             (h(op_cfg := dict_update (h op_cfg) kw)) = (Inr ops', h')"
    using build_ops_loop_step by blast
  have ih: "map_of (h' a) =
      (if a \<in> snd ` set cands then map_of ((h(op_cfg := dict_update (h op_cfg) kw)) a) ++ map_of kw
       else map_of ((h(op_cfg := dict_update (h op_cfg) kw)) a))"
    by (rule Cons.IH[OF rest])
  show ?case
    using ih na by (auto simp: map_of_dict_update_distinct[OF assms(2)] map_add_twice)
qed

lemma conv_init:
  "DiffMutableOP_init conv_build conv_candidates (Some [(''stride'', 2), (''groups'', 4)]) conv_store =
     (Inr \<lparr>candidates = [(''conv3'', (*) 3), (''conv5'', (*) 5)], is_fixed = False, chosen = None\<rparr>,
      conv_store(0 := [(''kernel'', 3), (''stride'', 2), (''groups'', 4)],
                 1 := [(''kernel'', 5), (''stride'', 2), (''groups'', 4)]))"
  by (simp add: DiffMutableOP_init_def build_ops_def conv_build_def conv_candidates_def
      conv_store_def dict_update_def Let_def)

section \<open>The weighted forward of DiffMutableOP\<close>

text \<open>
  Claim C5.  For a \<^verbatim>\<open>DiffMutableOP\<close> with \<open>K\<close> candidates and an architecture parameter
  of length \<open>K\<close>, \<^verbatim>\<open>forward_arch_param\<close> returns the sum, over exactly the candidates
  whose probability is strictly positive, of the probability times the candidate's output,
  the probabilities being the softmax of the parameter, aligned with the insertion order
  of the candidates.
\<close>

theorem DiffMutableOP_forward_arch_param_weighted_sum:
  fixes m :: "('x, 'y::real_vector, 'z) mutable_scheme"
  assumes "length a = length (candidates m)"
  shows "DiffMutableOP_forward_arch_param m x (Some a) =
     Inr (\<Sum>i | i < length (candidates m) \<and> 0 < softmax a ! i.
            (softmax a ! i) *\<^sub>R snd (candidates m ! i) x)"
  using assms by (simp add: forward_arch_param_sum)

theorem DiffMutableOP_forward_arch_param_weighted_sum_witness:
  "length [0, 0, 0 :: real] = length (candidates three_op_mutable) \<and>
   DiffMutableOP_forward_arch_param three_op_mutable 1 (Some [0, 0, 0]) = Inr 2 \<and>
   (\<Sum>i | i < length (candidates three_op_mutable) \<and> 0 < softmax [0, 0, 0] ! i.
      (softmax [0, 0, 0] ! i) *\<^sub>R snd (candidates three_op_mutable ! i) 1) = (2::real)"
proof -
  have len: "length [0, 0, 0 :: real] = length (candidates three_op_mutable)"
    by (simp add: three_op_mutable_def three_ops_def)
  have val: "DiffMutableOP_forward_arch_param three_op_mutable 1 (Some [0, 0, 0]) = Inr 2"
    by (simp add: DiffMutableOP_forward_arch_param_def compute_arch_probs_def softmax_zeros3
        three_op_mutable_def three_ops_def py_sum_def)
  from DiffMutableOP_forward_arch_param_weighted_sum[OF len, of 1] val len
  show ?thesis by simp
qed

text \<open>
  Claim C9.  When the architecture parameter is shorter than the candidate set, of length
  \<open>n < K\<close>, \<^verbatim>\<open>forward_arch_param\<close> raises nothing: the pairing stops after \<open>n\<close>
  candidates, and the result is the weighted sum over the first \<open>n\<close> candidates in
  insertion order, the same as on the mutable cut down to these candidates.
\<close>

theorem DiffMutableOP_forward_arch_param_short_param:
  fixes m :: "('x, 'y::real_vector, 'z) mutable_scheme"
  assumes "length a < length (candidates m)"
  shows "DiffMutableOP_forward_arch_param m x (Some a) =
     Inr (\<Sum>i | i < length a \<and> 0 < softmax a ! i.
            (softmax a ! i) *\<^sub>R snd (candidates m ! i) x) \<and>
   DiffMutableOP_forward_arch_param m x (Some a) =
     DiffMutableOP_forward_arch_param (m\<lparr>candidates := take (length a) (candidates m)\<rparr>) x (Some a)"
proof -
  have "min (length a) (length (candidates m)) = length a" using assms by simp
  moreover have "\<And>i. i < length a \<Longrightarrow> take (length a) (candidates m) ! i = candidates m ! i"
    by simp
  ultimately show ?thesis
    by (simp add: forward_arch_param_sum cong: conj_cong)
qed

theorem DiffMutableOP_forward_arch_param_short_param_witness:
  "length [0, 0 :: real] < length (candidates three_op_mutable) \<and>
   DiffMutableOP_forward_arch_param three_op_mutable 1 (Some [0, 0]) = Inr (3/2) \<and>
   DiffMutableOP_forward_arch_param
     (three_op_mutable\<lparr>candidates := take 2 (candidates three_op_mutable)\<rparr>) 1 (Some [0, 0]) =
     Inr (3/2)"
proof -
  have len: "length [0, 0 :: real] < length (candidates three_op_mutable)"
    by (simp add: three_op_mutable_def three_ops_def)
  have val: "DiffMutableOP_forward_arch_param three_op_mutable 1 (Some [0, 0]) = Inr (3/2)"
    by (simp add: DiffMutableOP_forward_arch_param_def compute_arch_probs_def softmax_zeros2
        three_op_mutable_def three_ops_def py_sum_def)
  from DiffMutableOP_forward_arch_param_short_param[OF len, of 1] val len
  show ?thesis by (simp add: numeral_2_eq_2)
qed

section \<open>Fixing a mutable\<close>

text \<open>
  Claim C4.  For an unfixed mutable, a \<^verbatim>\<open>DiffMutableOP\<close> or a \<^verbatim>\<open>DiffChoiceRoute\<close>, and
  a chosen value whose names are all keys of the candidate set, one call of
  \<^verbatim>\<open>fix_chosen\<close> succeeds and leaves as many candidates as the chosen set has names,
  every surviving key is chosen, the survivors are the chosen candidates in their
  original insertion order, and \<^verbatim>\<open>is_fixed\<close> is true.  The keys of a dictionary are
  distinct, and the size of the chosen set counts each name once.
\<close>

theorem fix_chosen_keeps_exactly_chosen:
  fixes m :: "('x, 'y, 'z) mutable_scheme" and r :: "('u, 'v, 'w) choice_route_scheme"
  assumes m: "\<not> is_fixed m" "distinct (choices m)" "set (normalize_chosen c) \<subseteq> set (choices m)"
    and r: "\<not> is_fixed r" "distinct (choices r)" "set cs \<subseteq> set (choices r)"
  shows "(let res = DiffMutableOP_fix_chosen c m; m' = snd res in
           fst res = Inr () \<and>
           length (candidates m') = card (set (normalize_chosen c)) \<and>
           set (choices m') \<subseteq> set (normalize_chosen c) \<and>
           candidates m' = filter (\<lambda>kv. fst kv \<in> set (normalize_chosen c)) (candidates m) \<and>
           choices m' = filter (\<lambda>k. k \<in> set (normalize_chosen c)) (choices m) \<and>
           is_fixed m') \<and>
         (let res = DiffChoiceRoute_fix_chosen cs r; r' = snd res in
           fst res = Inr () \<and>
           length (candidates r') = card (set cs) \<and>
           set (choices r') \<subseteq> set cs \<and>
           candidates r' = filter (\<lambda>kv. fst kv \<in> set cs) (candidates r) \<and>
           choices r' = filter (\<lambda>k. k \<in> set cs) (choices r) \<and>
           is_fixed r')"
proof -
  have km: "set (normalize_chosen c) \<subseteq> fst ` set (candidates m)"
    using m(3) by (simp add: choices_def)
  have kr: "set cs \<subseteq> fst ` set (candidates r)"
    using r(3) by (simp add: choices_def)
  have dm: "distinct (map fst (candidates m))" using m(2) by (simp add: choices_def)
  have dr: "distinct (map fst (candidates r))" using r(2) by (simp add: choices_def)
  have fm: "map fst (filter (\<lambda>kv. fst kv \<in> set (normalize_chosen c)) (candidates m)) =
            filter (\<lambda>k. k \<in> set (normalize_chosen c)) (map fst (candidates m))"
    by (simp add: filter_map comp_def)
  have fr: "map fst (filter (\<lambda>kv. fst kv \<in> set cs) (candidates r)) =
            filter (\<lambda>k. k \<in> set cs) (map fst (candidates r))"
    by (simp add: filter_map comp_def)
  have pm: "length (candidates (snd (DiffMutableOP_fix_chosen c m))) = card (set (normalize_chosen c))"
    by (simp only: fix_op(2)[OF m] length_filter_keys[OF dm km])
  have pr: "length (candidates (snd (DiffChoiceRoute_fix_chosen cs r))) = card (set cs)"
    by (simp only: fix_route(2)[OF r(1)] length_filter_keys[OF dr kr])
  show ?thesis
    unfolding Let_def
    using pm pr fm fr
    by (auto simp add: fix_op[OF m] fix_route[OF r(1)] choices_def)
qed

theorem fix_chosen_keeps_exactly_chosen_witness:
  "\<not> is_fixed three_op_mutable \<and> distinct (choices three_op_mutable) \<and>
   set (normalize_chosen (Name ''b'')) \<subseteq> set (choices three_op_mutable) \<and>
   \<not> is_fixed (three_edge_route True) \<and> distinct (choices (three_edge_route True)) \<and>
   set [''c'', ''a''] \<subseteq> set (choices (three_edge_route True)) \<and>
   choices (snd (DiffMutableOP_fix_chosen (Name ''b'') three_op_mutable)) = [''b''] \<and>
   is_fixed (snd (DiffMutableOP_fix_chosen (Name ''b'') three_op_mutable)) \<and>
   choices (snd (DiffChoiceRoute_fix_chosen [''c'', ''a''] (three_edge_route True))) = [''a'', ''c''] \<and>
   is_fixed (snd (DiffChoiceRoute_fix_chosen [''c'', ''a''] (three_edge_route True)))"
proof -
  have m: "\<not> is_fixed three_op_mutable" "distinct (choices three_op_mutable)"
    "set (normalize_chosen (Name ''b'')) \<subseteq> set (choices three_op_mutable)"
    by (simp_all add: three_op_mutable_def three_ops_def choices_def normalize_chosen_def)
  have r: "\<not> is_fixed (three_edge_route True)" "distinct (choices (three_edge_route True))"
    "set [''c'', ''a''] \<subseteq> set (choices (three_edge_route True))"
    by (simp_all add: three_edge_route_def three_ops_def choices_def)
  have e: "filter (\<lambda>k. k \<in> set (normalize_chosen (Name ''b''))) (choices three_op_mutable) = [''b'']"
    "filter (\<lambda>k. k \<in> set [''c'', ''a'']) (choices (three_edge_route True)) = [''a'', ''c'']"
    by (simp_all add: three_op_mutable_def three_edge_route_def three_ops_def choices_def
        normalize_chosen_def)
  from fix_chosen_keeps_exactly_chosen[OF m r] m r e show ?thesis by (simp add: Let_def)
qed

text \<open>
  Claim C2.  A second call of \<^verbatim>\<open>fix_chosen\<close> on a fixed mutable raises and is claimed
  to leave the object as it was.  \<^verbatim>\<open>DiffMutableOP\<close> does so
  (\<open>DiffMutableOP_fix_chosen_fixed\<close>).  \<^verbatim>\<open>DiffChoiceRoute\<close> stores the snapshot before it
  tests the flag: on the three-edge route fixed to \<^verbatim>\<open>c\<close>, the second call raises, the
  snapshot shrinks from \<^verbatim>\<open>[a, b, c]\<close> to \<^verbatim>\<open>[c]\<close>, and \<^verbatim>\<open>forward_fixed\<close> on the inputs
  \<^verbatim>\<open>[1, 10, 100]\<close> then feeds the first input to edge \<^verbatim>\<open>c\<close> instead of the third.
\<close>

theorem DiffChoiceRoute_second_fix_chosen_overwrites_snapshot:
  "is_fixed route_fixed_to_c \<and>
   unfixed_choices route_fixed_to_c = Some [''a'', ''b'', ''c''] \<and>
   DiffChoiceRoute_forward_fixed route_fixed_to_c [1, 10, 100] = (Inr 300, [''c'']) \<and>
   fst (DiffChoiceRoute_fix_chosen [''c''] route_fixed_to_c) = Inl AttributeError \<and>
   unfixed_choices (snd (DiffChoiceRoute_fix_chosen [''c''] route_fixed_to_c)) = Some [''c''] \<and>
   DiffChoiceRoute_forward_fixed (snd (DiffChoiceRoute_fix_chosen [''c''] route_fixed_to_c))
     [1, 10, 100] = (Inr 3, [''c''])"
  by (simp add: route_fixed_to_c_def DiffChoiceRoute_fix_chosen_def Let_def
      DiffChoiceRoute_forward_fixed_def three_edge_route_def three_ops_def choices_def
      pop_def getitem_def py_sum_def)

section \<open>Forward after fixing\<close>

text \<open>
  Claim C3.  For a \<^verbatim>\<open>DiffChoiceRoute\<close> fixed once with a chosen subset of its candidate
  names, \<^verbatim>\<open>forward_fixed\<close> on inputs aligned with the full candidate ordering before the
  fix returns the sum, over exactly the chosen edges, of each chosen edge applied to the
  input at the edge's position in that ordering; it invokes the chosen edges and no
  other, in that order.
\<close>

theorem DiffChoiceRoute_forward_fixed_chosen_sum:
  fixes r :: "('x, 'y::real_vector, 'z) choice_route_scheme"
  assumes "\<not> is_fixed r" "distinct (choices r)" "set cs \<subseteq> set (choices r)"
    "length inputs = length (candidates r)"
  shows "DiffChoiceRoute_forward_fixed (snd (DiffChoiceRoute_fix_chosen cs r)) inputs =
    (Inr (\<Sum>i | i < length (candidates r) \<and> fst (candidates r ! i) \<in> set cs.
            snd (candidates r ! i) (inputs ! i)),
     filter (\<lambda>k. k \<in> set cs) (choices r))"
proof -
  let ?d = "candidates r"
  let ?d' = "filter (\<lambda>kv. fst kv \<in> set cs) ?d"
  let ?zs = "zip (choices r) inputs"
  have len: "length (choices r) = length inputs" using assms(4) by (simp add: choices_def)
  have keys: "\<forall>c \<in> set cs \<inter> fst ` set ?zs. c \<in> fst ` set ?d'"
    using assms(3) by (force simp: choices_def)
  have outs: "route_fixed_outputs ?d' cs ?zs [] [] =
    (Inr (map (\<lambda>cx. the (map_of ?d' (fst cx)) (snd cx)) (filter (\<lambda>cx. fst cx \<in> set cs) ?zs)),
     map fst (filter (\<lambda>cx. fst cx \<in> set cs) ?zs))"
    using route_fixed_outputs_eq[OF keys, of "[]" "[]"] by simp
  have calls: "map fst (filter (\<lambda>cx. fst cx \<in> set cs) ?zs) = filter (\<lambda>k. k \<in> set cs) (choices r)"
    using map_fst_zip_filter[OF len, of "\<lambda>k. k \<in> set cs"] by simp
  have nth_choice: "\<And>i. i < length ?d \<Longrightarrow> choices r ! i = fst (?d ! i)"
    by (simp add: choices_def)
  have "map (\<lambda>cx. the (map_of ?d' (fst cx)) (snd cx)) (filter (\<lambda>cx. fst cx \<in> set cs) ?zs) =
        map (\<lambda>i. the (map_of ?d' (choices r ! i)) (inputs ! i))
          (filter (\<lambda>i. choices r ! i \<in> set cs) [0..<length ?d])"
    using zip_filter_index[of "\<lambda>cx. the (map_of ?d' (fst cx)) (snd cx)" "\<lambda>cx. fst cx \<in> set cs"
        "choices r" inputs] len assms(4)
    by simp
  also have "\<dots> = map (\<lambda>i. the (map_of ?d' (choices r ! i)) (inputs ! i))
          (filter (\<lambda>i. fst (?d ! i) \<in> set cs) [0..<length ?d])"
    by (rule arg_cong[where f="map _"], rule filter_cong[OF refl]) (simp add: nth_choice)
  also have "\<dots> = map (\<lambda>i. snd (?d ! i) (inputs ! i))
          (filter (\<lambda>i. fst (?d ! i) \<in> set cs) [0..<length ?d])"
  proof (rule map_cong[OF refl])
    fix i assume "i \<in> set (filter (\<lambda>i. fst (?d ! i) \<in> set cs) [0..<length ?d])"
    then have i: "i < length ?d" "fst (?d ! i) \<in> set cs" by auto
    have "map_of ?d' (fst (?d ! i)) = map_of ?d (fst (?d ! i))"
      using i(2) by (rule map_of_filter_keys)
    also have "\<dots> = Some (snd (?d ! i))"
      using assms(2) i(1) by (simp add: map_of_nth_distinct choices_def)
    finally show "the (map_of ?d' (choices r ! i)) (inputs ! i) = snd (?d ! i) (inputs ! i)"
      by (simp add: nth_choice[OF i(1)])
  qed
  finally have vals: "map (\<lambda>cx. the (map_of ?d' (fst cx)) (snd cx)) (filter (\<lambda>cx. fst cx \<in> set cs) ?zs)
     = map (\<lambda>i. snd (?d ! i) (inputs ! i)) (filter (\<lambda>i. fst (?d ! i) \<in> set cs) [0..<length ?d])" .
  show ?thesis
    using assms(1)
    by (simp add: DiffChoiceRoute_forward_fixed_def fix_route outs calls vals py_sum_sum_list
        sum_list_filter_upt)
qed

theorem DiffChoiceRoute_forward_fixed_chosen_sum_witness:
  "\<not> is_fixed (three_edge_route True) \<and> distinct (choices (three_edge_route True)) \<and>
   set [''c'', ''a''] \<subseteq> set (choices (three_edge_route True)) \<and>
   length [1, 10, 100 :: real] = length (candidates (three_edge_route True)) \<and>
   DiffChoiceRoute_forward_fixed
     (snd (DiffChoiceRoute_fix_chosen [''c'', ''a''] (three_edge_route True))) [1, 10, 100] =
     (Inr 301, [''a'', ''c'']) \<and>
   (\<Sum>i | i < length (candidates (three_edge_route True)) \<and>
            fst (candidates (three_edge_route True) ! i) \<in> set [''c'', ''a''].
       snd (candidates (three_edge_route True) ! i) ([1, 10, 100] ! i)) = (301::real)"
proof -
  have h: "\<not> is_fixed (three_edge_route True)" "distinct (choices (three_edge_route True))"
    "set [''c'', ''a''] \<subseteq> set (choices (three_edge_route True))"
    "length [1, 10, 100 :: real] = length (candidates (three_edge_route True))"
    by (simp_all add: three_edge_route_def three_ops_def choices_def)
  have val: "DiffChoiceRoute_forward_fixed
     (snd (DiffChoiceRoute_fix_chosen [''c'', ''a''] (three_edge_route True))) [1, 10, 100] =
     (Inr 301, [''a'', ''c''])"
    by (simp add: DiffChoiceRoute_forward_fixed_def DiffChoiceRoute_fix_chosen_def Let_def
        three_edge_route_def three_ops_def choices_def pop_def getitem_def py_sum_def)
  from DiffChoiceRoute_forward_fixed_chosen_sum[OF h] val h show ?thesis by simp
qed

text \<open>
  Claim C6.  For a \<^verbatim>\<open>DiffMutableOP\<close> fixed with a chosen set (names of candidates, each
  once), \<^verbatim>\<open>forward_fixed\<close> returns the unweighted sum of exactly the chosen candidates'
  outputs on the input, and \<^verbatim>\<open>forward\<close> returns the same whatever architecture
  parameter is passed.
\<close>

theorem DiffMutableOP_forward_fixed_unweighted_sum:
  fixes m :: "('x, 'y::real_vector, 'z) mutable_scheme"
  assumes "\<not> is_fixed m" "distinct (choices m)" "distinct (normalize_chosen c)"
    "set (normalize_chosen c) \<subseteq> set (choices m)"
  shows "DiffMutableOP_forward_fixed (snd (DiffMutableOP_fix_chosen c m)) x =
    Inr (\<Sum>i | i < length (candidates m) \<and> fst (candidates m ! i) \<in> set (normalize_chosen c).
            snd (candidates m ! i) x) \<and>
    DiffMutableOP_forward (snd (DiffMutableOP_fix_chosen c m)) x arch_param =
    Inr (\<Sum>i | i < length (candidates m) \<and> fst (candidates m ! i) \<in> set (normalize_chosen c).
            snd (candidates m ! i) x)"
proof -
  let ?cs = "normalize_chosen c"
  let ?d = "candidates m"
  let ?d' = "filter (\<lambda>kv. fst kv \<in> set ?cs) ?d"
  let ?g = "\<lambda>k. the (map_of ?d' k) x"
  have dist': "distinct (map fst ?d')"
    using assms(2) by (simp add: choices_def distinct_map_filter)
  have keys: "set (map fst ?d') = set ?cs"
    using assms(4) by (force simp: choices_def)
  have sub: "set ?cs \<subseteq> fst ` set ?d'" using keys by simp
  have "sum_list (map ?g ?cs) = sum ?g (set ?cs)"
    using assms(3) by (rule sum_list_distinct_conv_sum_set)
  also have "\<dots> = sum ?g (set (map fst ?d'))" by (simp only: keys)
  also have "\<dots> = sum_list (map ?g (map fst ?d'))"
    using dist' by (rule sum_list_distinct_conv_sum_set[symmetric])
  also have "\<dots> = sum_list (map (\<lambda>kv. snd kv x) ?d')"
  proof -
    have "map ?g (map fst ?d') = map (\<lambda>kv. snd kv x) ?d'"
    proof (simp only: map_map comp_def, rule map_cong[OF refl])
      fix kv assume "kv \<in> set ?d'"
      then have "map_of ?d' (fst kv) = Some (snd kv)"
        using dist' by (metis map_of_eq_Some_iff prod.collapse)
      then show "the (map_of ?d' (fst kv)) x = snd kv x" by simp
    qed
    then show ?thesis by (rule arg_cong)
  qed
  also have "\<dots> = (\<Sum>i | i < length ?d \<and> fst (?d ! i) \<in> set ?cs. snd (?d ! i) x)"
    by (rule sum_list_map_filter_nth)
  finally have s: "sum_list (map ?g ?cs) =
      (\<Sum>i | i < length ?d \<and> fst (?d ! i) \<in> set ?cs. snd (?d ! i) x)" .
  have fixed: "DiffMutableOP_forward_fixed (snd (DiffMutableOP_fix_chosen c m)) x =
    Inr (\<Sum>i | i < length ?d \<and> fst (?d ! i) \<in> set ?cs. snd (?d ! i) x)"
    using assms(1) fixed_outputs_eq[OF sub, of x "[]"] s
    by (simp add: DiffMutableOP_forward_fixed_def fix_op[OF assms(1,2,4)] py_sum_sum_list)
  have "DiffMutableOP_forward (snd (DiffMutableOP_fix_chosen c m)) x arch_param =
        DiffMutableOP_forward_fixed (snd (DiffMutableOP_fix_chosen c m)) x"
    by (simp add: DiffMutableOP_forward_def forward_def fix_op(3)[OF assms(1,2,4)])
  with fixed show ?thesis by simp
qed

theorem DiffMutableOP_forward_fixed_unweighted_sum_witness:
  "\<not> is_fixed three_op_mutable \<and> distinct (choices three_op_mutable) \<and>
   distinct (normalize_chosen (Names [''c'', ''b''])) \<and>
   set (normalize_chosen (Names [''c'', ''b''])) \<subseteq> set (choices three_op_mutable) \<and>
   DiffMutableOP_forward_fixed
     (snd (DiffMutableOP_fix_chosen (Names [''c'', ''b'']) three_op_mutable)) 7 = Inr 35 \<and>
   DiffMutableOP_forward
     (snd (DiffMutableOP_fix_chosen (Names [''c'', ''b'']) three_op_mutable)) 7 (Some [4, 0, 0]) = Inr 35 \<and>
   DiffMutableOP_forward
     (snd (DiffMutableOP_fix_chosen (Names [''c'', ''b'']) three_op_mutable)) 7 None = Inr 35"
proof -
  have h: "\<not> is_fixed three_op_mutable" "distinct (choices three_op_mutable)"
    "distinct (normalize_chosen (Names [''c'', ''b'']))"
    "set (normalize_chosen (Names [''c'', ''b''])) \<subseteq> set (choices three_op_mutable)"
    by (simp_all add: three_op_mutable_def three_ops_def choices_def normalize_chosen_def)
  have val: "DiffMutableOP_forward_fixed
     (snd (DiffMutableOP_fix_chosen (Names [''c'', ''b'']) three_op_mutable)) 7 = Inr 35"
    by (simp add: DiffMutableOP_forward_fixed_def DiffMutableOP_fix_chosen_def Let_def
        three_op_mutable_def three_ops_def choices_def normalize_chosen_def pop_def getitem_def
        py_sum_def)
  from DiffMutableOP_forward_fixed_unweighted_sum[OF h, of 7 "Some [4, 0, 0]"] DiffMutableOP_forward_fixed_unweighted_sum[OF h, of 7 None] val h show ?thesis by simp
qed

section \<open>Forward of the route\<close>

text \<open>
  Claim C8.  When the number of inputs differs from the number of candidates, both
  \<^verbatim>\<open>forward_arch_param\<close> and \<^verbatim>\<open>forward_all\<close> of a \<^verbatim>\<open>DiffChoiceRoute\<close> fail with the
  assertion and have invoked no edge.
\<close>

theorem DiffChoiceRoute_length_mismatch_fails_first:
  fixes r :: "('x, 'y::real_vector, 'z) choice_route_scheme"
  assumes "length x \<noteq> length (candidates r)"
  shows "DiffChoiceRoute_forward_arch_param r x arch_param = (Inl AssertionError, []) \<and>
         DiffChoiceRoute_forward_all r x = (Inl AssertionError, [])"
  using assms by (simp add: DiffChoiceRoute_forward_arch_param_def DiffChoiceRoute_forward_all_def)

theorem DiffChoiceRoute_length_mismatch_fails_first_witness:
  "length [1, 10 :: real] \<noteq> length (candidates (three_edge_route True)) \<and>
   DiffChoiceRoute_forward_arch_param (three_edge_route True) [1, 10] (Some [0, 0, 0]) =
     (Inl AssertionError, []) \<and>
   DiffChoiceRoute_forward_all (three_edge_route True) [1, 10] = (Inl AssertionError, [])"
proof -
  have h: "length [1, 10 :: real] \<noteq> length (candidates (three_edge_route True))"
    by (simp add: three_edge_route_def three_ops_def)
  from DiffChoiceRoute_length_mismatch_fails_first[OF h, of "Some [0, 0, 0]"] h show ?thesis by simp
qed

section \<open>Forward without architecture parameter\<close>

text \<open>
  Claim C1 says that every unfixed mutable, called without architecture parameter, returns
  what \<^verbatim>\<open>forward_all\<close> returns.  A \<^verbatim>\<open>DiffChoiceRoute\<close> built with
  \<^verbatim>\<open>with_arch_param=True\<close> does not: it branches on its mode flag, hands the missing
  parameter to \<^verbatim>\<open>compute_arch_probs\<close> and fails, while \<^verbatim>\<open>forward_all\<close> succeeds.
\<close>

theorem DiffChoiceRoute_forward_without_arch_param_fails:
  "\<not> is_fixed (three_edge_route True) \<and>
   DiffChoiceRoute_forward (three_edge_route True) [1, 10, 100] None = (Inl AttributeError, []) \<and>
   DiffChoiceRoute_forward_all (three_edge_route True) [1, 10, 100] = (Inr 321, [''a'', ''b'', ''c'']) \<and>
   DiffChoiceRoute_forward (three_edge_route True) [1, 10, 100] None \<noteq>
   DiffChoiceRoute_forward_all (three_edge_route True) [1, 10, 100]"
  by (simp add: DiffChoiceRoute_forward_def forward_def DiffChoiceRoute_forward_arch_param_def
      DiffChoiceRoute_forward_all_def compute_arch_probs_def three_edge_route_def three_ops_def
      py_sum_def)

text \<open>
  Claim C1, amended.  An unfixed \<^verbatim>\<open>DiffMutableOP\<close>, an unfixed \<^verbatim>\<open>OneHotMutableOP\<close> and an
  unfixed \<^verbatim>\<open>DiffChoiceRoute\<close> built with \<^verbatim>\<open>with_arch_param=False\<close> return, without
  architecture parameter, what \<^verbatim>\<open>forward_all\<close> returns on the same input.  An unfixed
  \<^verbatim>\<open>DiffChoiceRoute\<close> built with \<^verbatim>\<open>with_arch_param=True\<close> fails on inputs of the right
  length, and fails like \<^verbatim>\<open>forward_all\<close> on inputs of another length.
\<close>

theorem forward_without_arch_param:
  fixes m :: "('x, 'y::real_vector, 'z) mutable_scheme"
    and h :: "('x1, 'y1::real_vector, 'z1) one_hot_mutable_scheme"
    and r :: "('x2, 'y2::real_vector, 'z2) choice_route_scheme"
  assumes "\<not> is_fixed m" "\<not> is_fixed h" "\<not> is_fixed r"
  shows "DiffMutableOP_forward m x None = DiffMutableOP_forward_all m x \<and>
         OneHotMutableOP_forward draw h x1 None = (DiffMutableOP_forward_all h x1, h) \<and>
         DiffChoiceRoute_forward r xs None =
           (if with_arch_param r \<and> length xs = length (candidates r)
            then (Inl AttributeError, [])
            else DiffChoiceRoute_forward_all r xs)"
  using assms
  by (simp add: DiffMutableOP_forward_def forward_def DiffMutableOP_forward_arch_param_def
      OneHotMutableOP_forward_def OneHotMutableOP_forward_arch_param_def
      DiffChoiceRoute_forward_def DiffChoiceRoute_forward_arch_param_def
      DiffChoiceRoute_forward_all_def compute_arch_probs_def)

theorem forward_without_arch_param_witness:
  "\<not> is_fixed three_op_mutable \<and> \<not> is_fixed three_op_one_hot \<and>
   \<not> is_fixed (three_edge_route False) \<and>
   DiffMutableOP_forward three_op_mutable 7 None = Inr 42 \<and>
   DiffMutableOP_forward_all three_op_mutable 7 = Inr 42 \<and>
   OneHotMutableOP_forward id three_op_one_hot 7 None = (Inr 42, three_op_one_hot) \<and>
   DiffChoiceRoute_forward (three_edge_route False) [1, 10, 100] None =
     (Inr 321, [''a'', ''b'', ''c'']) \<and>
   DiffChoiceRoute_forward_all (three_edge_route False) [1, 10, 100] =
     (Inr 321, [''a'', ''b'', ''c''])"
proof -
  have h: "\<not> is_fixed three_op_mutable" "\<not> is_fixed three_op_one_hot"
    "\<not> is_fixed (three_edge_route False)"
    by (simp_all add: three_op_mutable_def three_op_one_hot_def three_edge_route_def)
  have v: "DiffMutableOP_forward_all three_op_mutable 7 = Inr 42"
    "DiffMutableOP_forward_all three_op_one_hot 7 = Inr 42"
    "DiffChoiceRoute_forward_all (three_edge_route False) [1, 10, 100] =
     (Inr 321, [''a'', ''b'', ''c''])"
    "\<not> with_arch_param (three_edge_route False)"
    by (simp_all add: DiffMutableOP_forward_all_def DiffChoiceRoute_forward_all_def
        three_op_mutable_def three_op_one_hot_def three_edge_route_def three_ops_def py_sum_def)
  from forward_without_arch_param[OF h, of 7 id 7 "[1, 10, 100]"] v h show ?thesis by simp
qed

section \<open>Sampling the edges of a route\<close>

text \<open>
  Claim C7 says that \<^verbatim>\<open>sample_choice\<close> returns the names of the \<^verbatim>\<open>num_chosen\<close> candidates
  with the largest parameter values.  A route may have fewer edges than \<^verbatim>\<open>num_chosen\<close>:
  the route with one edge and the default \<^verbatim>\<open>num_chosen = 2\<close> returns one name.
\<close>

theorem DiffChoiceRoute_sample_choice_single_edge:
  "DiffChoiceRoute_init [(''a'', id)] None None = Inr single_edge_route \<and>
   \<not> is_fixed single_edge_route \<and>
   length (candidates single_edge_route) = 1 \<and>
   num_chosen single_edge_route = 2 \<and>
   is_argsort (stable_argsort (map uminus [3/10])) (map uminus [3/10]) \<and>
   DiffChoiceRoute_sample_choice stable_argsort single_edge_route [3/10] = Inr [''a'']"
  by (simp add: DiffChoiceRoute_init_def single_edge_route_def is_argsort_def stable_argsort_def
      DiffChoiceRoute_sample_choice_def slice_to_def choices_def lessThan_Suc)

text \<open>
  Claim C7, amended.  For a \<^verbatim>\<open>DiffChoiceRoute\<close> with \<open>K\<close> candidates and an architecture
  parameter of length \<open>K\<close>, \<^verbatim>\<open>sample_choice\<close> returns the names at the indices that the
  slice \<^verbatim>\<open>[:num_chosen]\<close> keeps of the indices sorted by descending parameter value:
  \<open>min num_chosen K\<close> names when \<^verbatim>\<open>num_chosen\<close> is not negative, and all but the last
  \<open>- num_chosen\<close> otherwise.  The names are those of distinct candidates, in descending
  order of parameter value, and no candidate left out has a larger value than one
  returned.  With \<^verbatim>\<open>num_chosen = 2\<close>, candidates \<^verbatim>\<open>[a, b, c]\<close> and parameter
  \<^verbatim>\<open>[0.1, 0.9, 0.5]\<close> the result is \<^verbatim>\<open>[b, c]\<close>.
\<close>

theorem DiffChoiceRoute_sample_choice_top:
  assumes srt: "is_argsort (argsort (map uminus a)) (map uminus a)"
    and len: "length a = length (candidates r)"
  shows "let K = length (candidates r); n = num_chosen r;
             idx = slice_to n (argsort (map uminus a)) in
     DiffChoiceRoute_sample_choice argsort r a = Inr (map (\<lambda>i. choices r ! i) idx) \<and>
     length idx = (if 0 \<le> n then min (nat n) K else K - nat (- n)) \<and>
     distinct idx \<and> set idx \<subseteq> {..<K} \<and>
     sorted_wrt (\<lambda>i j. a ! j \<le> a ! i) idx \<and>
     (\<forall>i \<in> set idx. \<forall>j < K. j \<notin> set idx \<longrightarrow> a ! j \<le> a ! i)"
proof -
  let ?v = "map uminus a"
  let ?s = "argsort ?v"
  let ?k = "if 0 \<le> num_chosen r then nat (num_chosen r) else length ?s - nat (- num_chosen r)"
  let ?idx = "slice_to (num_chosen r) ?s"
  have idx: "?idx = take ?k ?s" by (rule slice_to_take)
  have d: "distinct ?s" and st: "set ?s = {..<length a}" and so: "sorted (map (\<lambda>i. ?v ! i) ?s)"
    using srt by (simp_all add: is_argsort_def)
  have ls: "length ?s = length a" using is_argsort_length[OF srt] by simp
  have sub: "set ?idx \<subseteq> {..<length a}"
    using set_take_subset[of ?k ?s] st by (simp only: idx)
  have bound: "\<forall>i \<in> set ?idx. i < length (choices r)"
    using sub len by (auto simp: choices_def)
  have res: "DiffChoiceRoute_sample_choice argsort r a = Inr (map (\<lambda>i. choices r ! i) ?idx)"
    using choice_names_eq[OF bound, of "[]"] by (simp add: DiffChoiceRoute_sample_choice_def Let_def)
  have lidx: "length ?idx =
      (if 0 \<le> num_chosen r then min (nat (num_chosen r)) (length a) else length a - nat (- num_chosen r))"
    by (cases "0 \<le> num_chosen r") (simp_all add: idx ls)
  have didx: "distinct ?idx" using d by (simp add: idx)
  have "sorted (map (\<lambda>i. ?v ! i) ?idx)"
    using so by (simp only: idx take_map[symmetric] sorted_wrt_take)
  then have "sorted_wrt (\<lambda>i j. ?v ! i \<le> ?v ! j) ?idx" by (simp only: sorted_map)
  then have desc: "sorted_wrt (\<lambda>i j. a ! j \<le> a ! i) ?idx"
  proof (rule sorted_wrt_mono_rel[rotated])
    fix i j assume "i \<in> set ?idx" "j \<in> set ?idx" "?v ! i \<le> ?v ! j"
    with sub show "a ! j \<le> a ! i" by (auto simp: subset_iff)
  qed
  have dom: "\<forall>i \<in> set ?idx. \<forall>j < length a. j \<notin> set ?idx \<longrightarrow> a ! j \<le> a ! i"
  proof (intro ballI allI impI)
    fix i j assume i: "i \<in> set ?idx" and j: "j < length a" "j \<notin> set ?idx"
    from j(1) st have js: "j \<in> set ?s" by simp
    have i': "i \<in> set (take ?k ?s)" using i unfolding idx .
    have j': "j \<notin> set (take ?k ?s)" using j(2) unfolding idx .
    have "?v ! i \<le> ?v ! j"
      by (rule sorted_prefix_dominates[of "\<lambda>i. ?v ! i", OF so i' js j'])
    moreover from i sub have "i < length a" by auto
    ultimately show "a ! j \<le> a ! i" using j(1) by simp
  qed
  show ?thesis
    unfolding Let_def len[symmetric]
    using res lidx didx sub desc dom by simp
qed

theorem DiffChoiceRoute_sample_choice_top_witness:
  "is_argsort (stable_argsort (map uminus [1/10, 9/10, 1/2])) (map uminus [1/10, 9/10, 1/2]) \<and>
   length [1/10, 9/10, 1/2 :: real] = length (candidates (three_edge_route True)) \<and>
   num_chosen (three_edge_route True) = 2 \<and>
   DiffChoiceRoute_sample_choice stable_argsort (three_edge_route True) [1/10, 9/10, 1/2] =
     Inr [''b'', ''c'']"
proof -
  have s: "is_argsort (stable_argsort (map uminus [1/10, 9/10, 1/2])) (map uminus [1/10, 9/10, 1/2])"
    by (rule is_argsort_stable_argsort)
  have l: "length [1/10, 9/10, 1/2 :: real] = length (candidates (three_edge_route True))"
    by (simp add: three_edge_route_def three_ops_def)
  have n: "num_chosen (three_edge_route True) = 2" by (simp add: three_edge_route_def)
  have e: "map (\<lambda>i. choices (three_edge_route True) ! i)
             (slice_to 2 (stable_argsort (map uminus [1/10, 9/10, 1/2]))) = [''b'', ''c'']"
    by (simp add: stable_argsort3 slice_to_def numeral_2_eq_2 choices_def three_edge_route_def
        three_ops_def)
  from DiffChoiceRoute_sample_choice_top[of stable_argsort "[1/10, 9/10, 1/2]" "three_edge_route True", OF s l] s l n e show ?thesis by (simp add: Let_def)
qed

section \<open>Construction and the caller's configurations\<close>

text \<open>
  Claim C10.  Constructing a \<^verbatim>\<open>DiffMutableOP\<close> with \<^verbatim>\<open>module_kwargs\<close> given changes the
  caller's configuration dictionaries in place: after a construction that succeeds, the
  dictionary behind every candidate's reference is the one before with the shared
  keywords merged into it, a keyword overwriting an equal key; no other dictionary of the
  store changes.
\<close>

theorem DiffMutableOP_init_updates_configs:
  assumes "DiffMutableOP_init build cands (Some kw) h = (Inr m, h')"
    and "distinct (map fst kw)"
  shows "(\<forall>(name, op_cfg) \<in> set cands. map_of (h' op_cfg) = map_of (h op_cfg) ++ map_of kw) \<and>
         (\<forall>a. a \<notin> snd ` set cands \<longrightarrow> h' a = h a)"
proof -
  from assms(1) obtain ops where
    loop: "build_ops_loop build cands (Some kw) [] h = (Inr ops, h')"
    by (auto simp: DiffMutableOP_init_def build_ops_def split: if_splits prod.splits sum.splits)
  have "\<And>name op_cfg. (name, op_cfg) \<in> set cands \<Longrightarrow>
          map_of (h' op_cfg) = map_of (h op_cfg) ++ map_of kw"
  proof -
    fix name op_cfg assume "(name, op_cfg) \<in> set cands"
    then have "op_cfg \<in> snd ` set cands" by force
    with build_ops_loop_store[OF loop assms(2), of op_cfg] show
      "map_of (h' op_cfg) = map_of (h op_cfg) ++ map_of kw" by simp
  qed
  moreover have "\<And>a. a \<notin> snd ` set cands \<Longrightarrow> h' a = h a"
    by (rule build_ops_loop_frame[OF loop])
  ultimately show ?thesis by auto
qed

theorem DiffMutableOP_init_updates_configs_witness:
  "distinct (map fst [(''stride'', 2 :: int), (''groups'', 4)]) \<and>
   fst (DiffMutableOP_init conv_build conv_candidates (Some [(''stride'', 2), (''groups'', 4)]) conv_store) =
     Inr \<lparr>candidates = [(''conv3'', (*) 3), (''conv5'', (*) 5)], is_fixed = False, chosen = None\<rparr> \<and>
   conv_store 0 = [(''kernel'', 3), (''stride'', 1)] \<and>
   snd (DiffMutableOP_init conv_build conv_candidates (Some [(''stride'', 2), (''groups'', 4)]) conv_store) 0 =
     [(''kernel'', 3), (''stride'', 2), (''groups'', 4)] \<and>
   map_of (snd (DiffMutableOP_init conv_build conv_candidates
                  (Some [(''stride'', 2), (''groups'', 4)]) conv_store) 0) =
     map_of (conv_store 0) ++ map_of [(''stride'', 2), (''groups'', 4)]"
proof -
  have d: "distinct (map fst [(''stride'', 2 :: int), (''groups'', 4)])" by simp
  have m: "(''conv3'', 0) \<in> set conv_candidates" by (simp add: conv_candidates_def)
  from DiffMutableOP_init_updates_configs[OF conv_init d] m
  have "map_of ((conv_store(0 := [(''kernel'', 3), (''stride'', 2), (''groups'', 4)],
                 1 := [(''kernel'', 5), (''stride'', 2), (''groups'', 4)])) 0) =
     map_of (conv_store 0) ++ map_of [(''stride'', 2), (''groups'', 4)]"
    by blast
  with d show ?thesis by (simp add: conv_init) (simp add: conv_store_def)
qed

end
